theory Spec2Isabelle
  imports Complex_Main
begin

section \<open>Configuration constants and the character classes of the string module\<close>

definition MAX_ACCOUNTS :: int where
  "MAX_ACCOUNTS = 1000"

definition TOKEN_LENGTH :: nat where
  "TOKEN_LENGTH = 64"

definition USERNAME_LENGTH :: nat where
  "USERNAME_LENGTH = 8"

definition PASSWORD_LENGTH :: nat where
  "PASSWORD_LENGTH = 12"

definition DOMAINS :: "string list" where
  "DOMAINS = [''gmail.com'', ''yahoo.com'', ''protonmail.com'', ''outlook.com'']"

definition USER_AGENTS :: "string list" where
  "USER_AGENTS =
    [''Mozilla/5.0 (Windows NT 10.0; Win64; x64) AppleWebKit/537.36 (KHTML, like Gecko) Chrome/91.0.4472.124 Safari/537.36'',
     ''Mozilla/5.0 (Macintosh; Intel Mac OS X 10_15_7) AppleWebKit/605.1.15 (KHTML, like Gecko) Version/14.1.1 Safari/605.1.15'',
     ''Mozilla/5.0 (X11; Linux x86_64; rv:89.0) Gecko/20100101 Firefox/89.0'']"

definition ascii_lowercase :: string where
  "ascii_lowercase = ''abcdefghijklmnopqrstuvwxyz''"

definition ascii_uppercase :: string where
  "ascii_uppercase = ''ABCDEFGHIJKLMNOPQRSTUVWXYZ''"

definition ascii_letters :: string where
  "ascii_letters = ascii_lowercase @ ascii_uppercase"

definition digits :: string where
  "digits = ''0123456789''"

definition hexdigits :: string where
  "hexdigits = digits @ ''abcdef'' @ ''ABCDEF''"

text \<open>
  \<open>str.upper\<close> and \<open>str.lower\<close>, on the ASCII letters. The program applies them to
  \<open>string.hexdigits\<close> only, so the case mapping of other scripts is never reached.
\<close>

definition upper_char :: "char \<Rightarrow> char" where
  "upper_char c =
     (case map_of (zip ascii_lowercase ascii_uppercase) c of Some u \<Rightarrow> u | None \<Rightarrow> c)"

definition lower_char :: "char \<Rightarrow> char" where
  "lower_char c =
     (case map_of (zip ascii_uppercase ascii_lowercase) c of Some l \<Rightarrow> l | None \<Rightarrow> c)"

definition str_upper :: "string \<Rightarrow> string" where
  "str_upper s = map upper_char s"

definition str_lower :: "string \<Rightarrow> string" where
  "str_lower s = map lower_char s"

text \<open>\<open>sep.join(parts)\<close>.\<close>

fun str_join :: "string \<Rightarrow> string list \<Rightarrow> string" where
  "str_join sep [] = []"
| "str_join sep [x] = x"
| "str_join sep (x # y # ys) = x @ sep @ str_join sep (y # ys)"

text \<open>\<open>s.split(sep)\<close> for a one-character separator: the accumulator holds the current group.\<close>

fun split_acc :: "char \<Rightarrow> string \<Rightarrow> string \<Rightarrow> string list" where
  "split_acc sep acc [] = [acc]"
| "split_acc sep acc (c # cs) =
     (if c = sep then acc # split_acc sep [] cs else split_acc sep (acc @ [c]) cs)"

definition str_split :: "char \<Rightarrow> string \<Rightarrow> string list" where
  "str_split sep s = split_acc sep [] s"

section \<open>The random module as an oracle of draws\<close>

text \<open>
  The state of the global generator is the sequence of draws still to come; a call consumes
  a prefix of it. A draw for a population of \<open>n\<close> elements is reduced to an index below
  \<open>n\<close>, as \<open>floor(random() * n)\<close> and \<open>_randbelow(n)\<close> are: every index is hit by the same
  share of draws. \<open>random.random()\<close> is the draw taken as a 53-bit numerator \<open>k\<close>, standing
  for the float \<open>k / 2^53\<close>. All populations of the program are non-empty constants.
\<close>

type_synonym rng = "nat \<Rightarrow> nat"

definition advance :: "nat \<Rightarrow> rng \<Rightarrow> rng" where
  "advance k r = (\<lambda>i. r (i + k))"

definition random_choice :: "'a list \<Rightarrow> rng \<Rightarrow> 'a \<times> rng" where
  "random_choice xs r = (xs ! (r 0 mod length xs), advance 1 r)"

definition random_choices :: "'a list \<Rightarrow> nat \<Rightarrow> rng \<Rightarrow> 'a list \<times> rng" where
  "random_choices population k r =
     (map (\<lambda>i. population ! (r i mod length population)) [0..<k], advance k r)"

definition random_random :: "rng \<Rightarrow> nat \<times> rng" where
  "random_random r = (r 0 mod 2 ^ 53, advance 1 r)"

section \<open>Decimal numerals and JSON text\<close>

definition digit_char :: "nat \<Rightarrow> char" where
  "digit_char d = ''0123456789'' ! d"

function str_nat :: "nat \<Rightarrow> string" where
  "str_nat n = (if n < 10 then [digit_char n] else str_nat (n div 10) @ [digit_char (n mod 10)])"
  by pat_completeness auto
termination
  by (relation "measure id") auto

declare str_nat.simps [simp del]

definition str_int :: "int \<Rightarrow> string" where
  "str_int i = (if i < 0 then CHR ''-'' # str_nat (nat (- i)) else str_nat (nat i))"

text \<open>The format \<open>{i:07d}\<close>: zero-padded to a width of seven, the sign counted in the width.\<close>

definition format_07d :: "int \<Rightarrow> string" where
  "format_07d i =
     (if i < 0
      then CHR ''-'' # replicate (6 - length (str_nat (nat (- i)))) CHR ''0'' @ str_nat (nat (- i))
      else replicate (7 - length (str_nat (nat i))) CHR ''0'' @ str_nat (nat i))"

definition hex_char :: "nat \<Rightarrow> char" where
  "hex_char d = ''0123456789abcdef'' ! d"

text \<open>
  The string encoder of \<open>json.dump\<close> with \<open>ensure_ascii\<close>: the named escapes, and
  \<open>\<^verbatim>\<open>\u00XX\<close>\<close> for every other character outside the printable ASCII range. Strings of
  the model are sequences of 8-bit characters.
\<close>

definition escape_char :: "char \<Rightarrow> string" where
  "escape_char c =
     (if c = CHR 0x5C then [CHR 0x5C, CHR 0x5C]
      else if c = CHR 0x22 then [CHR 0x5C, CHR 0x22]
      else if c = CHR 0x08 then [CHR 0x5C, CHR ''b'']
      else if c = CHR 0x0C then [CHR 0x5C, CHR ''f'']
      else if c = CHR 0x0A then [CHR 0x5C, CHR ''n'']
      else if c = CHR 0x0D then [CHR 0x5C, CHR ''r'']
      else if c = CHR 0x09 then [CHR 0x5C, CHR ''t'']
      else if (of_char c :: nat) < 32 \<or> 126 < (of_char c :: nat)
      then [CHR 0x5C, CHR ''u'', CHR ''0'', CHR ''0'',
            hex_char ((of_char c :: nat) div 16), hex_char ((of_char c :: nat) mod 16)]
      else [c])"

definition encode_string :: "string \<Rightarrow> string" where
  "encode_string s = [CHR 0x22] @ concat (map escape_char s) @ [CHR 0x22]"

text \<open>
  The values the program serialises: strings, integers, arrays and objects (a dict keeps
  its insertion order).
\<close>

datatype json = JString string | JInt int | JArray "json list" | JObject "(string \<times> json) list"

text \<open>\<open>json.dumps(v)\<close> with the default separators \<open>", "\<close> and \<open>": "\<close>.\<close>

fun json_dumps :: "json \<Rightarrow> string" where
  "json_dumps (JString s) = encode_string s"
| "json_dumps (JInt i) = str_int i"
| "json_dumps (JArray xs) = ''['' @ str_join '', '' (map json_dumps xs) @ '']''"
| "json_dumps (JObject kvs) =
     ''{'' @ str_join '', '' (map (\<lambda>(k, v). encode_string k @ '': '' @ json_dumps v) kvs) @ ''}''"

text \<open>
  \<open>json.dump(v, f, indent=2)\<close>: every item on a line of its own at two spaces per nesting
  level, items separated by a comma, an empty container written closed.
\<close>

definition newline_indent :: "nat \<Rightarrow> string" where
  "newline_indent lvl = CHR 0x0A # replicate (2 * lvl) CHR '' ''"

fun json_dump_indent :: "nat \<Rightarrow> json \<Rightarrow> string" where
  "json_dump_indent lvl (JString s) = encode_string s"
| "json_dump_indent lvl (JInt i) = str_int i"
| "json_dump_indent lvl (JArray xs) =
     (if xs = [] then ''[]''
      else ''['' @ newline_indent (lvl + 1)
           @ str_join ('','' @ newline_indent (lvl + 1)) (map (json_dump_indent (lvl + 1)) xs)
           @ newline_indent lvl @ '']'')"
| "json_dump_indent lvl (JObject kvs) =
     (if kvs = [] then ''{}''
      else ''{'' @ newline_indent (lvl + 1)
           @ str_join ('','' @ newline_indent (lvl + 1))
               (map (\<lambda>(k, v). encode_string k @ '': '' @ json_dump_indent (lvl + 1) v) kvs)
           @ newline_indent lvl @ ''}'')"

section \<open>TokenGenerator\<close>

text \<open>
  The generator object holds the call counter. Its lock is taken and released inside
  \<open>generate\<close>, so it is free again on return and is not a field of the model.
\<close>

record token_generator =
  generated :: int

text \<open>The clock of \<open>time.time()\<close>, truncated to whole seconds: the readings still to come.\<close>

type_synonym clock = "nat \<Rightarrow> int"

definition generate_uuid :: "rng \<Rightarrow> string \<times> rng" where
  "generate_uuid r0 =
     (let (g1, r1) = random_choices (str_lower hexdigits) 8 r0;
          (g2, r2) = random_choices (str_lower hexdigits) 4 r1;
          (g3, r3) = random_choices (str_lower hexdigits) 4 r2;
          (g4, r4) = random_choices (str_lower hexdigits) 4 r3;
          (g5, r5) = random_choices (str_lower hexdigits) 12 r4
      in (str_join ''-'' [g1, g2, g3, g4, g5], r5))"

definition generate_jwt :: "clock \<Rightarrow> rng \<Rightarrow> string \<times> rng" where
  "generate_jwt clk r0 =
     (let header = json_dumps (JObject [(''alg'', JString ''HS256''), (''typ'', JString ''JWT'')]);
          (sub, r1) = random_choices digits 9 r0;
          payload = json_dumps (JObject
            [(''sub'', JString (''user_'' @ sub)), (''iat'', JInt (clk 0)), (''exp'', JInt (clk 1 + 3600))]);
          (signature, r2) = random_choices hexdigits 64 r1
      in (header @ ''.'' @ payload @ ''.'' @ signature, r2))"

definition generate ::
  "string \<Rightarrow> clock \<Rightarrow> rng \<Rightarrow> 'a token_generator_scheme \<Rightarrow> string \<times> rng \<times> 'a token_generator_scheme"
where
  "generate token_type clk r g =
     (let g' = g\<lparr>generated := generated g + 1\<rparr> in
      if token_type = ''hex'' then
        (let (tok, r') = random_choices (str_upper hexdigits) TOKEN_LENGTH r in (tok, r', g'))
      else if token_type = ''numeric'' then
        (let (tok, r') = random_choices digits TOKEN_LENGTH r in (tok, r', g'))
      else if token_type = ''uuid'' then
        (let (tok, r') = generate_uuid r in (tok, r', g'))
      else if token_type = ''jwt'' then
        (let (tok, r') = generate_jwt clk r in (tok, r', g'))
      else
        (let chars = ascii_letters @ digits;
             (tok, r') = random_choices chars TOKEN_LENGTH r
         in (tok, r', g')))"

section \<open>AccountCreator\<close>

text \<open>
  A Python float: a finite value, taken as the real number it stands for, an infinity or
  a NaN.
\<close>

datatype pyfloat = Finite real | PosInf | NegInf | NaN

record account_creator =
  created :: int
  delay :: pyfloat

record account =
  service :: string
  account_id :: string
  username :: string
  password :: string
  email :: string
  created_at :: string
  user_agent :: string
  status :: string

datatype error = ValueError | OverflowError | OSError

text \<open>
  \<open>time.sleep(secs)\<close> first converts the length to a signed 64-bit count of nanoseconds,
  rounding away from zero: \<open>ValueError\<close> for a NaN, \<open>OverflowError\<close> for a length whose
  count is out of that range, the infinities among them. Then it raises \<open>ValueError\<close> for
  a negative length, and returns otherwise. The rounded count of \<open>x\<close> seconds is out of
  range exactly when \<open>x * 10^9\<close> is below \<open>-2^63\<close> or above \<open>2^63 - 1\<close>; the product is the
  exact one, not the rounded product of two floats.
\<close>

definition time_sleep :: "pyfloat \<Rightarrow> error + unit" where
  "time_sleep secs =
     (case secs of
        NaN \<Rightarrow> Inl ValueError
      | PosInf \<Rightarrow> Inl OverflowError
      | NegInf \<Rightarrow> Inl OverflowError
      | Finite x \<Rightarrow>
          (if x * 10 ^ 9 < - (2 ^ 63) then Inl OverflowError
           else if 2 ^ 63 - 1 < x * 10 ^ 9 then Inl OverflowError
           else if x < 0 then Inl ValueError
           else Inr ()))"

definition generate_username :: "rng \<Rightarrow> string \<times> rng" where
  "generate_username r0 =
     (let (prefix, r1) = random_choice [''user'', ''admin'', ''test'', ''demo'', ''temp''] r0;
          (suffix, r2) = random_choices (ascii_lowercase @ digits) (USERNAME_LENGTH - 4) r1
      in (prefix @ ''_'' @ suffix, r2))"

definition generate_password :: "rng \<Rightarrow> string \<times> rng" where
  "generate_password r0 =
     (let chars = ascii_letters @ digits @ ''!@#$%^&*''
      in random_choices chars PASSWORD_LENGTH r0)"

definition generate_email :: "string \<Rightarrow> rng \<Rightarrow> string \<times> rng" where
  "generate_email uname r0 =
     (let (domain, r1) = random_choice DOMAINS r0
      in (uname @ ''@'' @ domain, r1))"

text \<open>
  An optional argument is \<open>None\<close> when omitted. The test \<open>not x\<close> holds for \<open>None\<close> and
  for the empty string.
\<close>

fun falsy :: "string option \<Rightarrow> bool" where
  "falsy None = True"
| "falsy (Some s) = (s = [])"

text \<open>
  \<open>create_account\<close> up to the point where it takes the lock: the sleep, the credentials,
  the account id read from the counter, the timestamp (the text \<open>now\<close> that
  \<open>datetime.now().strftime\<close> returns) and the user agent. What it has computed so far is
  an account whose status is still empty.
\<close>

definition create_account_prepare ::
  "string \<Rightarrow> string option \<Rightarrow> string option \<Rightarrow> string option \<Rightarrow> string \<Rightarrow> rng
     \<Rightarrow> 'a account_creator_scheme \<Rightarrow> error + (account \<times> rng)"
where
  "create_account_prepare svc uname pword mail now r0 c =
     (case time_sleep (delay c) of
        Inl e \<Rightarrow> Inl e
      | Inr _ \<Rightarrow>
          (let (u, r1) = (if falsy uname then generate_username r0 else (the uname, r0));
               (p, r2) = (if falsy pword then generate_password r1 else (the pword, r1));
               (m, r3) = (if falsy mail then generate_email u r2 else (the mail, r2));
               aid = svc @ ''_acc_'' @ format_07d (created c + 1);
               (ua, r4) = random_choice USER_AGENTS r3
           in Inr (\<lparr>service = svc, account_id = aid, username = u, password = p, email = m,
                     created_at = now, user_agent = ua, status = []\<rparr>, r4)))"

text \<open>The rest of \<open>create_account\<close>: the increment under the lock and the returned dict.\<close>

definition create_account_commit ::
  "account \<Rightarrow> rng \<Rightarrow> 'a account_creator_scheme \<Rightarrow> account \<times> rng \<times> 'a account_creator_scheme"
where
  "create_account_commit a r0 c =
     (let c' = c\<lparr>created := created c + 1\<rparr>;
          (x, r1) = random_random r0
      in (a\<lparr>status := (if 900719925474099 < x then ''active'' else ''pending'')\<rparr>, r1, c'))"

text \<open>
  \<open>random.random() > 0.1\<close>: the float \<open>0.1\<close> is \<open>3602879701896397 / 2^55\<close>, so a draw
  \<open>k / 2^53\<close> exceeds it exactly when \<open>900719925474099 < k\<close>.
\<close>

definition create_account ::
  "string \<Rightarrow> string option \<Rightarrow> string option \<Rightarrow> string option \<Rightarrow> string \<Rightarrow> rng
     \<Rightarrow> 'a account_creator_scheme \<Rightarrow> error + (account \<times> rng \<times> 'a account_creator_scheme)"
where
  "create_account svc uname pword mail now r0 c =
     (case create_account_prepare svc uname pword mail now r0 c of
        Inl e \<Rightarrow> Inl e
      | Inr (a, r1) \<Rightarrow> Inr (create_account_commit a r1 c))"

section \<open>create_accounts: the worker pool\<close>

text \<open>What the program prints; colours are left out.\<close>

datatype message =
    SafetyLimitExceeded int
  | CreatingAccounts int string int
  | Progress nat int
  | CreatedSaved nat string

text \<open>
  The world outside the program: the files and their contents, the lines printed, and for
  every path whether the file system lets it be opened for writing (its directory exists,
  it is not a directory itself, the permissions allow it).
\<close>

record world =
  files :: "string \<rightharpoonup> string"
  stdout :: "message list"
  opens :: "string \<Rightarrow> bool"

text \<open>
  \<open>open(path, 'w')\<close>: \<open>ValueError\<close> for a path with a NUL character, \<open>OSError\<close> (as
  \<open>FileNotFoundError\<close>, \<open>IsADirectoryError\<close> or \<open>PermissionError\<close>) for the empty path and
  for every path that the file system does not open.
\<close>

definition open_for_writing :: "world \<Rightarrow> string \<Rightarrow> error + unit" where
  "open_for_writing w path =
     (if CHR 0x00 \<in> set path then Inl ValueError
      else if path = [] then Inl OSError
      else if opens w path then Inr ()
      else Inl OSError)"

text \<open>
  A worker is at one of the points where it touches shared state: the check under the lock,
  the call of \<open>create_account\<close> (which reads the counter), the increment under the
  creator's lock, the append under the lock, and the progress line (which reads the length
  of the list). It ends by returning from the check, or by an exception that nothing
  catches. The local \<open>target\<close> that the check assigns is never read and is left out.
\<close>

datatype pc =
    Checking
  | Creating
  | Committing account
  | Appending account
  | Reporting
  | Returned
  | Raised error

fun running :: "pc \<Rightarrow> bool" where
  "running Returned = False"
| "running (Raised e) = False"
| "running _ = True"

record pool =
  accounts :: "account list"
  creator :: account_creator
  workers :: "pc list"
  console :: "message list"

text \<open>
  One turn of the scheduler: which of the running workers moves (\<open>who\<close>, counted among the
  running ones), the random draws it takes during the move, and the wall-clock text it
  would read.
\<close>

record event =
  who :: nat
  rnd :: rng
  now :: string

definition live :: "pool \<Rightarrow> nat list" where
  "live p = filter (\<lambda>i. running (workers p ! i)) [0..<length (workers p)]"

definition worker_step :: "int \<Rightarrow> string \<Rightarrow> event \<Rightarrow> nat \<Rightarrow> pool \<Rightarrow> pool" where
  "worker_step num_accounts svc e i p =
     (case workers p ! i of
        Checking \<Rightarrow>
          (if num_accounts \<le> int (length (accounts p))
           then p\<lparr>workers := (workers p)[i := Returned]\<rparr>
           else p\<lparr>workers := (workers p)[i := Creating]\<rparr>)
      | Creating \<Rightarrow>
          (case create_account_prepare svc None None None (now e) (rnd e) (creator p) of
             Inl err \<Rightarrow> p\<lparr>workers := (workers p)[i := Raised err]\<rparr>
           | Inr (a, r) \<Rightarrow> p\<lparr>workers := (workers p)[i := Committing a]\<rparr>)
      | Committing a \<Rightarrow>
          (let (a', r, c') = create_account_commit a (rnd e) (creator p)
           in p\<lparr>creator := c', workers := (workers p)[i := Appending a']\<rparr>)
      | Appending a \<Rightarrow>
          p\<lparr>accounts := accounts p @ [a], workers := (workers p)[i := Reporting]\<rparr>
      | Reporting \<Rightarrow>
          p\<lparr>console := console p @ [Progress (length (accounts p)) num_accounts],
            workers := (workers p)[i := Checking]\<rparr>
      | Returned \<Rightarrow> p
      | Raised err \<Rightarrow> p)"

text \<open>
  The pool runs until no worker is running, which is when every \<open>join\<close> has returned. The
  schedule is the fuel: \<open>None\<close> when it ends with a worker still running.
\<close>

fun run_pool :: "int \<Rightarrow> string \<Rightarrow> event list \<Rightarrow> pool \<Rightarrow> pool option" where
  "run_pool num_accounts svc [] p = (if live p = [] then Some p else None)"
| "run_pool num_accounts svc (e # es) p =
     (if live p = [] then Some p
      else run_pool num_accounts svc es
             (worker_step num_accounts svc e (live p ! (who e mod length (live p))) p))"

definition account_json :: "account \<Rightarrow> json" where
  "account_json a = JObject
     [(''service'', JString (service a)),
      (''account_id'', JString (account_id a)),
      (''username'', JString (username a)),
      (''password'', JString (password a)),
      (''email'', JString (email a)),
      (''created_at'', JString (created_at a)),
      (''user_agent'', JString (user_agent a)),
      (''status'', JString (status a))]"

text \<open>
  How a call ends: refused at the ceiling, completed with the file written, or failed with
  an exception that leaves \<open>create_accounts\<close> (nothing in the program catches it).
\<close>

datatype outcome = Refused | Completed pool | Failed error pool

text \<open>
  \<open>create_accounts(num_accounts, service, output_file, delay, threads)\<close> in a world of files
  and printed lines. \<open>range(threads)\<close> is empty for a negative count of threads. After
  the workers have joined, the output file is opened; when that raises, the file is left as
  it was and the closing line is not printed. A file that has been opened takes the text.
\<close>

definition create_accounts ::
  "int \<Rightarrow> string \<Rightarrow> string \<Rightarrow> pyfloat \<Rightarrow> int \<Rightarrow> event list \<Rightarrow> world \<Rightarrow> (outcome \<times> world) option"
where
  "create_accounts num_accounts svc output_file dly threads sched w =
     (if MAX_ACCOUNTS < num_accounts
      then Some (Refused, w\<lparr>stdout := stdout w @ [SafetyLimitExceeded MAX_ACCOUNTS]\<rparr>)
      else
        (case run_pool num_accounts svc sched
                \<lparr>accounts = [], creator = \<lparr>created = 0, delay = dly\<rparr>,
                 workers = replicate (nat threads) Checking,
                 console = stdout w @ [CreatingAccounts num_accounts svc threads]\<rparr>
         of None \<Rightarrow> None
          | Some p \<Rightarrow>
              (case open_for_writing w output_file of
                 Inl err \<Rightarrow> Some (Failed err p, w\<lparr>stdout := console p\<rparr>)
               | Inr _ \<Rightarrow>
                   Some (Completed p,
                         w\<lparr>files := (files w)(output_file \<mapsto>
                                       json_dump_indent 0 (JArray (map account_json (accounts p)))),
                           stdout := console p @ [CreatedSaved (length (accounts p)) output_file]\<rparr>))))"

text \<open>The records a call has collected: the list of the pool, none when refused.\<close>

definition records_of :: "outcome \<Rightarrow> account list" where
  "records_of out =
     (case out of Refused \<Rightarrow> [] | Completed p \<Rightarrow> accounts p | Failed err p \<Rightarrow> accounts p)"

section \<open>Measures on the pool\<close>

text \<open>
  A worker is in flight from the moment it has passed the check until it has appended.
  The pool is \<open>bounded\<close> when the records collected and the workers in flight together
  stay within the target plus the other workers; \<open>target_seen\<close> records that a worker
  only returns once the target is met, and that no worker has raised.
  \<open>turns_left k\<close> is the number of turns a worker can still take when \<open>k\<close> records are
  missing, and \<open>fuel_needed\<close> adds them up.
\<close>

fun in_flight :: "pc \<Rightarrow> bool" where
  "in_flight Creating = True"
| "in_flight (Committing a) = True"
| "in_flight (Appending a) = True"
| "in_flight _ = False"

definition bounded :: "int \<Rightarrow> pool \<Rightarrow> bool" where
  "bounded num_accounts p \<longleftrightarrow>
     int (length (accounts p)) + int (length (filter in_flight (workers p)))
       \<le> max 0 (num_accounts - 1 + int (length (workers p)))"

definition target_seen :: "int \<Rightarrow> pool \<Rightarrow> bool" where
  "target_seen num_accounts p \<longleftrightarrow>
     time_sleep (delay (creator p)) = Inr ()
     \<and> (\<forall>x \<in> set (workers p). \<forall>err. x \<noteq> Raised err)
     \<and> (Returned \<in> set (workers p) \<longrightarrow> num_accounts \<le> int (length (accounts p)))"

fun turns_left :: "nat \<Rightarrow> pc \<Rightarrow> nat" where
  "turns_left k Checking = 5 * k + 1"
| "turns_left k Creating = 5 * (k - 1) + 5"
| "turns_left k (Committing a) = 5 * (k - 1) + 4"
| "turns_left k (Appending a) = 5 * (k - 1) + 3"
| "turns_left k Reporting = 5 * k + 2"
| "turns_left k Returned = 0"
| "turns_left k (Raised err) = 0"

definition fuel_needed :: "int \<Rightarrow> pool \<Rightarrow> nat" where
  "fuel_needed num_accounts p =
     sum_list (map (turns_left (nat (num_accounts - int (length (accounts p))))) (workers p))"

section \<open>Facts about the random draws\<close>

lemma random_choices_length: "length (fst (random_choices population k r)) = k"
  by (simp add: random_choices_def)

lemma random_choices_set:
  "population \<noteq> [] \<Longrightarrow> set (fst (random_choices population k r)) \<subseteq> set population"
  by (auto simp: random_choices_def)

lemma random_choice_mem: "xs \<noteq> [] \<Longrightarrow> fst (random_choice xs r) \<in> set xs"
  by (simp add: random_choice_def)

lemma generate_username_fst:
  "fst (generate_username r) =
     fst (random_choice [''user'', ''admin'', ''test'', ''demo'', ''temp''] r) @ ''_''
       @ fst (random_choices (ascii_lowercase @ digits) 4 (advance 1 r))"
  by (simp add: generate_username_def split_beta USERNAME_LENGTH_def random_choice_def)

section \<open>The safety ceiling\<close>

text \<open>
  Claim C3. A call of \<open>create_accounts\<close> with more than 1000 accounts is refused whole,
  whatever the schedule: the outcome is \<open>Refused\<close>, reached before a pool of workers
  exists, so no record is created; the files are the ones before the call; and the only
  thing printed is the safety-limit line.
\<close>

theorem create_accounts_refused_above_ceiling:
  assumes "1000 < num_accounts"
  shows "create_accounts num_accounts svc output_file dly threads sched w =
           Some (Refused, w\<lparr>stdout := stdout w @ [SafetyLimitExceeded 1000]\<rparr>)
         \<and> files (w\<lparr>stdout := stdout w @ [SafetyLimitExceeded 1000]\<rparr>) = files w"
  using assms by (simp add: create_accounts_def MAX_ACCOUNTS_def)

theorem create_accounts_refused_above_ceiling_witness:
  "(1000::int) < 1001 \<and>
   create_accounts 1001 ''custom'' ''accounts.json'' (Finite (1 / 2)) 5 []
       \<lparr>files = Map.empty, stdout = [], opens = (\<lambda>path. True)\<rparr> =
     Some (Refused, \<lparr>files = Map.empty, stdout = [SafetyLimitExceeded 1000], opens = (\<lambda>path. True)\<rparr>)"
  using create_accounts_refused_above_ceiling
          [of 1001 "''custom''" "''accounts.json''" "Finite (1 / 2)" 5 "[]"
              "\<lparr>files = Map.empty, stdout = [], opens = (\<lambda>path. True)\<rparr>"]
  by simp

section \<open>Token kinds\<close>

text \<open>
  Claim C5. For a kind that is none of alphanumeric, hex, numeric, uuid and jwt,
  \<open>generate\<close> does what it does for \<open>"alphanumeric"\<close> (same token, same draws consumed,
  same counter): a token of 64 characters, all of them ASCII letters or digits. The model
  of \<open>generate\<close> has no error result, as the code has no raise.
\<close>

theorem generate_unknown_kind_falls_back:
  assumes "token_type \<notin> {''alphanumeric'', ''hex'', ''numeric'', ''uuid'', ''jwt''}"
  shows "generate token_type clk r g = generate ''alphanumeric'' clk r g
         \<and> length (fst (generate token_type clk r g)) = 64
         \<and> set (fst (generate token_type clk r g)) \<subseteq> set (ascii_letters @ digits)"
proof -
  have pop: "ascii_letters @ digits \<noteq> []"
    by (simp add: digits_def)
  have tok: "fst (generate token_type clk r g) = fst (random_choices (ascii_letters @ digits) TOKEN_LENGTH r)"
    using assms by (simp add: generate_def Let_def split_beta)
  have same: "generate token_type clk r g = generate ''alphanumeric'' clk r g"
    using assms by (simp add: generate_def)
  have len: "length (fst (generate token_type clk r g)) = 64"
    unfolding tok by (simp add: random_choices_length TOKEN_LENGTH_def)
  have chars: "set (fst (generate token_type clk r g)) \<subseteq> set (ascii_letters @ digits)"
    unfolding tok by (rule random_choices_set [OF pop])
  from same len chars show ?thesis
    by (intro conjI)
qed

theorem generate_unknown_kind_falls_back_witness:
  "''base64'' \<notin> {''alphanumeric'', ''hex'', ''numeric'', ''uuid'', ''jwt''}
   \<and> generate ''base64'' (\<lambda>k. 0) (\<lambda>i. i) \<lparr>generated = 0\<rparr>
       = generate ''alphanumeric'' (\<lambda>k. 0) (\<lambda>i. i) \<lparr>generated = 0\<rparr>
   \<and> length (fst (generate ''base64'' (\<lambda>k. 0) (\<lambda>i. i) \<lparr>generated = 0\<rparr>)) = 64"
proof -
  have h: "''base64'' \<notin> {''alphanumeric'', ''hex'', ''numeric'', ''uuid'', ''jwt''}"
    by simp
  from generate_unknown_kind_falls_back [OF h, of "\<lambda>k. 0" "\<lambda>i. i" "\<lparr>generated = 0\<rparr>"] h
  show ?thesis by blast
qed

text \<open>
  Claim C8. A call of \<open>generate\<close>, for every kind, leaves the generator as it was but for
  the counter \<open>generated\<close>, which is one more (the record scheme stands for whatever else
  the object may hold); and the token and the draws consumed are the same from any other
  generator state \<open>h\<close>, so they do not depend on the counter.
\<close>

theorem generate_only_counts:
  "snd (snd (generate token_type clk r g)) = g\<lparr>generated := generated g + 1\<rparr>
   \<and> fst (generate token_type clk r g) = fst (generate token_type clk r h)
   \<and> fst (snd (generate token_type clk r g)) = fst (snd (generate token_type clk r h))"
  by (simp add: generate_def Let_def split_beta)

section \<open>Usernames\<close>

text \<open>
  Claim C6. A generated username is a prefix, an underscore and a suffix; the prefix is one
  of user, admin, test, demo and temp; the suffix has always \<open>USERNAME_LENGTH - 4 = 4\<close>
  characters, lowercase letters or digits; so the username is 9 characters long for a
  prefix of four letters and 10 otherwise, and never 8.
\<close>

theorem generate_username_shape:
  "\<exists>prefix suffix.
     fst (generate_username r) = prefix @ ''_'' @ suffix
     \<and> prefix \<in> {''user'', ''admin'', ''test'', ''demo'', ''temp''}
     \<and> length suffix = USERNAME_LENGTH - 4
     \<and> length suffix = 4
     \<and> set suffix \<subseteq> set (ascii_lowercase @ digits)
     \<and> length (fst (generate_username r)) = (if length prefix = 4 then 9 else 10)
     \<and> length (fst (generate_username r)) \<noteq> 8"
proof -
  define prefix where "prefix = fst (random_choice [''user'', ''admin'', ''test'', ''demo'', ''temp''] r)"
  define suffix where "suffix = fst (random_choices (ascii_lowercase @ digits) 4 (advance 1 r))"
  have u: "fst (generate_username r) = prefix @ ''_'' @ suffix"
    by (simp add: generate_username_fst prefix_def suffix_def)
  have "prefix \<in> set [''user'', ''admin'', ''test'', ''demo'', ''temp'']"
    unfolding prefix_def by (rule random_choice_mem) simp
  then have p: "prefix \<in> {''user'', ''admin'', ''test'', ''demo'', ''temp''}"
    by simp
  have l: "length suffix = 4"
    by (simp add: suffix_def random_choices_length)
  have "ascii_lowercase @ digits \<noteq> []"
    by (simp add: digits_def)
  then have c: "set suffix \<subseteq> set (ascii_lowercase @ digits)"
    unfolding suffix_def by (rule random_choices_set)
  from p have n: "length (prefix @ ''_'' @ suffix) = (if length prefix = 4 then 9 else 10)"
    using l by auto
  then have "length (prefix @ ''_'' @ suffix) \<noteq> 8"
    by (simp split: if_splits)
  with u p l c n show ?thesis
    by (auto simp: USERNAME_LENGTH_def)
qed

section \<open>UUID-shaped tokens\<close>

lemma split_acc_no_sep: "sep \<notin> set a \<Longrightarrow> split_acc sep acc a = [acc @ a]"
  by (induction a arbitrary: acc) auto

lemma split_acc_group:
  "sep \<notin> set a \<Longrightarrow> split_acc sep acc (a @ sep # rest) = (acc @ a) # split_acc sep [] rest"
  by (induction a arbitrary: acc) auto

lemma str_lower_hexdigits: "str_lower hexdigits = ''0123456789abcdefabcdef''"
  by (simp add: str_lower_def hexdigits_def digits_def lower_char_def
        ascii_lowercase_def ascii_uppercase_def)

lemma lower_hex_set: "set (str_lower hexdigits) = set ''0123456789abcdef''"
  unfolding str_lower_hexdigits by auto

lemma lower_hex_group:
  "set (fst (random_choices (str_lower hexdigits) k r)) \<subseteq> set ''0123456789abcdef''"
proof -
  have "set (fst (random_choices (str_lower hexdigits) k r)) \<subseteq> set (str_lower hexdigits)"
    by (rule random_choices_set) (simp add: str_lower_hexdigits)
  then show ?thesis
    unfolding lower_hex_set .
qed

lemma lower_hex_no_hyphen:
  "CHR ''-'' \<notin> set (fst (random_choices (str_lower hexdigits) k r))"
  using lower_hex_group [of k r] by auto

lemma generate_uuid_split:
  "str_split CHR ''-'' (fst (generate_uuid r)) =
     [fst (random_choices (str_lower hexdigits) 8 r),
      fst (random_choices (str_lower hexdigits) 4 (advance 8 r)),
      fst (random_choices (str_lower hexdigits) 4 (advance 4 (advance 8 r))),
      fst (random_choices (str_lower hexdigits) 4 (advance 4 (advance 4 (advance 8 r)))),
      fst (random_choices (str_lower hexdigits) 12 (advance 4 (advance 4 (advance 4 (advance 8 r)))))]"
  by (simp add: generate_uuid_def split_beta str_split_def random_choices_def [THEN arg_cong, of snd]
        split_acc_group lower_hex_no_hyphen split_acc_no_sep)


text \<open>
  Claim C7. Splitting a token of kind uuid at the hyphens gives exactly five groups, of
  lengths 8, 4, 4, 4 and 12, and every character of every group is a lowercase
  hexadecimal digit.
\<close>

theorem generate_uuid_groups:
  "map length (str_split CHR ''-'' (fst (generate ''uuid'' clk r g))) = [8, 4, 4, 4, 12]
   \<and> (\<forall>grp \<in> set (str_split CHR ''-'' (fst (generate ''uuid'' clk r g))).
         set grp \<subseteq> set ''0123456789abcdef'')"
proof -
  have tok: "fst (generate ''uuid'' clk r g) = fst (generate_uuid r)"
    by (simp add: generate_def split_beta)
  show ?thesis
    unfolding tok generate_uuid_split
    by (simp add: random_choices_length lower_hex_group [simplified])
qed


theorem generate_uuid_groups_witness:
  "''07ef6de5'' \<in> set (str_split CHR ''-'' (fst (generate ''uuid'' (\<lambda>k. 0) (\<lambda>i. i * 7) \<lparr>generated = 0\<rparr>)))
   \<and> set ''07ef6de5'' \<subseteq> set ''0123456789abcdef''
   \<and> map length (str_split CHR ''-'' (fst (generate ''uuid'' (\<lambda>k. 0) (\<lambda>i. i * 7) \<lparr>generated = 0\<rparr>)))
       = [8, 4, 4, 4, 12]"
proof -
  have h: "''07ef6de5'' \<in> set (str_split CHR ''-'' (fst (generate ''uuid'' (\<lambda>k. 0) (\<lambda>i. i * 7) \<lparr>generated = 0\<rparr>)))"
    by code_simp
  from generate_uuid_groups [of "\<lambda>k. 0" "\<lambda>i. i * 7" "\<lparr>generated = 0\<rparr>"] h
  show ?thesis by blast
qed

section \<open>Credentials of a created account\<close>

lemma generate_username_nonempty: "fst (generate_username r) \<noteq> []"
  by (simp add: generate_username_def split_beta)

lemma generate_password_nonempty: "fst (generate_password r) \<noteq> []"
proof -
  have "length (fst (generate_password r)) = 12"
    by (simp add: generate_password_def PASSWORD_LENGTH_def random_choices_length)
  then show ?thesis by auto
qed

lemma generate_email_nonempty: "fst (generate_email u r) \<noteq> []"
  by (simp add: generate_email_def split_beta)

lemma falsy_Some: "\<not> falsy x \<Longrightarrow> the x \<noteq> []"
  by (cases x) auto

lemma prepare_credentials:
  assumes "create_account_prepare svc uname pword mail stamp r c = Inr (a, r')"
  shows "username a \<noteq> [] \<and> password a \<noteq> [] \<and> email a \<noteq> []"
proof (cases "time_sleep (delay c)")
  case (Inl err)
  with assms show ?thesis
    by (simp add: create_account_prepare_def)
next
  case (Inr slept)
  with assms have a: "a = \<lparr>service = svc,
      account_id = svc @ ''_acc_'' @ format_07d (created c + 1),
      username = fst (if falsy uname then generate_username r else (the uname, r)),
      password = fst (if falsy pword
                      then generate_password (snd (if falsy uname then generate_username r else (the uname, r)))
                      else (the pword, snd (if falsy uname then generate_username r else (the uname, r)))),
      email = fst (if falsy mail
                   then generate_email (fst (if falsy uname then generate_username r else (the uname, r)))
                          (snd (if falsy pword
                      then generate_password (snd (if falsy uname then generate_username r else (the uname, r)))
                      else (the pword, snd (if falsy uname then generate_username r else (the uname, r)))))
                   else (the mail, snd (if falsy pword
                      then generate_password (snd (if falsy uname then generate_username r else (the uname, r)))
                      else (the pword, snd (if falsy uname then generate_username r else (the uname, r)))))),
      created_at = stamp,
      user_agent = fst (random_choice USER_AGENTS (snd (if falsy mail
                   then generate_email (fst (if falsy uname then generate_username r else (the uname, r)))
                          (snd (if falsy pword
                      then generate_password (snd (if falsy uname then generate_username r else (the uname, r)))
                      else (the pword, snd (if falsy uname then generate_username r else (the uname, r)))))
                   else (the mail, snd (if falsy pword
                      then generate_password (snd (if falsy uname then generate_username r else (the uname, r)))
                      else (the pword, snd (if falsy uname then generate_username r else (the uname, r)))))))),
      status = []\<rparr>"
    by (simp add: create_account_prepare_def Let_def split_beta)
  have u: "username a \<noteq> []"
    unfolding a by (simp add: generate_username_nonempty falsy_Some)
  have p: "password a \<noteq> []"
    unfolding a by (simp add: generate_password_nonempty falsy_Some)
  have m: "email a \<noteq> []"
    unfolding a by (simp add: generate_email_nonempty falsy_Some)
  from u p m show ?thesis by simp
qed

lemma commit_credentials:
  "username (fst (create_account_commit a r c)) = username a
   \<and> password (fst (create_account_commit a r c)) = password a
   \<and> email (fst (create_account_commit a r c)) = email a
   \<and> account_id (fst (create_account_commit a r c)) = account_id a"
  by (simp add: create_account_commit_def Let_def split_beta)


text \<open>
  Claim C10. Passing the empty string for username, password or email to
  \<open>create_account\<close> gives what omitting that argument gives, whatever the other
  arguments are; and a record that \<open>create_account\<close> returns has a non-empty username,
  password and email.
\<close>

theorem create_account_empty_string_generates:
  "create_account svc (Some []) pword mail stamp r c = create_account svc None pword mail stamp r c
   \<and> create_account svc uname (Some []) mail stamp r c = create_account svc uname None mail stamp r c
   \<and> create_account svc uname pword (Some []) stamp r c = create_account svc uname pword None stamp r c
   \<and> (create_account svc uname pword mail stamp r c = Inr res \<longrightarrow>
         username (fst res) \<noteq> [] \<and> password (fst res) \<noteq> [] \<and> email (fst res) \<noteq> [])"
proof -
  have u: "create_account_prepare svc (Some []) pword mail stamp r c
             = create_account_prepare svc None pword mail stamp r c"
    by (cases "time_sleep (delay c)") (simp_all add: create_account_prepare_def)
  have p: "create_account_prepare svc uname (Some []) mail stamp r c
             = create_account_prepare svc uname None mail stamp r c"
    by (cases "time_sleep (delay c)") (simp_all add: create_account_prepare_def)
  have m: "create_account_prepare svc uname pword (Some []) stamp r c
             = create_account_prepare svc uname pword None stamp r c"
    by (cases "time_sleep (delay c)") (simp_all add: create_account_prepare_def)
  have n: "username (fst res) \<noteq> [] \<and> password (fst res) \<noteq> [] \<and> email (fst res) \<noteq> []"
    if res: "create_account svc uname pword mail stamp r c = Inr res"
  proof (cases "create_account_prepare svc uname pword mail stamp r c")
    case (Inl e)
    with res show ?thesis
      by (simp add: create_account_def)
  next
    case (Inr ar)
    obtain a r' where ar: "ar = (a, r')"
      by (cases ar)
    from res Inr ar have "res = create_account_commit a r' c"
      by (simp add: create_account_def)
    with prepare_credentials [OF Inr [unfolded ar]] show ?thesis
      by (simp add: commit_credentials)
  qed
  from n show ?thesis
    by (simp add: create_account_def u p m)
qed

theorem create_account_empty_string_generates_witness:
  "create_account ''custom'' (Some []) (Some []) (Some []) ''2024-01-01 00:00:00'' (\<lambda>i. i)
       \<lparr>created = 0, delay = Finite 0\<rparr>
     = Inr (projr (create_account ''custom'' (Some []) (Some []) (Some []) ''2024-01-01 00:00:00'' (\<lambda>i. i)
       \<lparr>created = 0, delay = Finite 0\<rparr>))
   \<and> username (fst (projr (create_account ''custom'' (Some []) (Some []) (Some []) ''2024-01-01 00:00:00'' (\<lambda>i. i)
       \<lparr>created = 0, delay = Finite 0\<rparr>))) \<noteq> []
   \<and> password (fst (projr (create_account ''custom'' (Some []) (Some []) (Some []) ''2024-01-01 00:00:00'' (\<lambda>i. i)
       \<lparr>created = 0, delay = Finite 0\<rparr>))) \<noteq> []
   \<and> email (fst (projr (create_account ''custom'' (Some []) (Some []) (Some []) ''2024-01-01 00:00:00'' (\<lambda>i. i)
       \<lparr>created = 0, delay = Finite 0\<rparr>))) \<noteq> []"
proof -
  have h: "create_account ''custom'' (Some []) (Some []) (Some []) ''2024-01-01 00:00:00'' (\<lambda>i. i)
       \<lparr>created = 0, delay = Finite 0\<rparr>
     = Inr (projr (create_account ''custom'' (Some []) (Some []) (Some []) ''2024-01-01 00:00:00'' (\<lambda>i. i)
       \<lparr>created = 0, delay = Finite 0\<rparr>))"
    by (simp add: create_account_def create_account_prepare_def time_sleep_def split_beta)
  from create_account_empty_string_generates
         [where svc = "''custom''" and uname = "Some []" and pword = "Some []" and mail = "Some []"
            and stamp = "''2024-01-01 00:00:00''" and r = "\<lambda>i. i"
            and c = "\<lparr>created = 0, delay = Finite 0\<rparr>"
            and res = "projr (create_account ''custom'' (Some []) (Some []) (Some []) ''2024-01-01 00:00:00'' (\<lambda>i. i)
       \<lparr>created = 0, delay = Finite 0\<rparr>)"] h
  show ?thesis by blast
qed

section \<open>The pool when the target is already met\<close>

lemma live_mem: "i \<in> set (live p) \<longleftrightarrow> i < length (workers p) \<and> running (workers p ! i)"
  by (auto simp: live_def)


lemma live_pick: "live p \<noteq> [] \<Longrightarrow> live p ! (k mod length (live p)) \<in> set (live p)"
  by simp







section \<open>Two workers between the check and the append\<close>

lemma format_07d_1: "format_07d 1 = ''0000001''"
  by code_simp

lemma format_07d_2: "format_07d 2 = ''0000002''"
  by code_simp

text \<open>
  Claim C1, at a run the code can make. One account is asked for, with two workers. Both
  workers pass the check while the list is still empty (the first two turns); then the
  first creates, appends, reports and returns, and the second does the same, appending
  without a second look at the length. The call ends with two records for a target of
  one: the progress line reads 2 of 1 and the file is reported with 2 accounts.
\<close>

theorem create_accounts_overshoot:
  "map_option (\<lambda>(out, w'). (length (records_of out), map account_id (records_of out), stdout w'))
     (create_accounts 1 ''custom'' ''accounts.json'' (Finite (1 / 2)) 2
        (map (\<lambda>k. \<lparr>who = k, rnd = (\<lambda>i. 0), now = ''2024-01-01 00:00:00''\<rparr>)
           [0, 1, 0, 0, 0, 0, 0, 0, 0, 0, 0, 0])
        \<lparr>files = Map.empty, stdout = [], opens = (\<lambda>path. True)\<rparr>)
   = Some (2, [''custom_acc_0000001'', ''custom_acc_0000002''],
           [CreatingAccounts 1 ''custom'' 2, Progress 1 1, Progress 2 1,
            CreatedSaved 2 ''accounts.json''])"
  by (simp add: create_accounts_def MAX_ACCOUNTS_def records_of_def numeral_2_eq_2
      open_for_writing_def live_def worker_step_def create_account_prepare_def create_account_commit_def
      time_sleep_def generate_username_def generate_password_def generate_email_def
      random_choice_def random_choices_def random_random_def advance_def split_beta Let_def
      format_07d_1 format_07d_2 USER_AGENTS_def DOMAINS_def
      USERNAME_LENGTH_def PASSWORD_LENGTH_def ascii_letters_def ascii_lowercase_def
      ascii_uppercase_def digits_def)

text \<open>
  Claim C2, at a run the code can make. Two accounts are asked for, with two workers that
  move in turns. Each reads the creator's counter, still 0, when it forms its account id,
  before either has incremented it under the creator's lock. The call ends with exactly
  two records, and both carry the account id \<open>custom_acc_0000001\<close>.
\<close>

theorem create_accounts_duplicate_account_id:
  "map_option (\<lambda>(out, w'). map account_id (records_of out))
     (create_accounts 2 ''custom'' ''accounts.json'' (Finite (1 / 2)) 2
        (map (\<lambda>k. \<lparr>who = k, rnd = (\<lambda>i. 0), now = ''2024-01-01 00:00:00''\<rparr>)
           [0, 1, 0, 1, 0, 1, 0, 1, 0, 1, 0, 0])
        \<lparr>files = Map.empty, stdout = [], opens = (\<lambda>path. True)\<rparr>)
   = Some [''custom_acc_0000001'', ''custom_acc_0000001'']"
  by (simp add: create_accounts_def MAX_ACCOUNTS_def records_of_def numeral_2_eq_2
      open_for_writing_def live_def worker_step_def create_account_prepare_def create_account_commit_def
      time_sleep_def generate_username_def generate_password_def generate_email_def
      random_choice_def random_choices_def random_random_def advance_def split_beta Let_def
      format_07d_1 format_07d_2 USER_AGENTS_def DOMAINS_def
      USERNAME_LENGTH_def PASSWORD_LENGTH_def ascii_letters_def ascii_lowercase_def
      ascii_uppercase_def digits_def)

section \<open>The fixed-length kinds\<close>

lemma str_upper_hexdigits: "str_upper hexdigits = ''0123456789ABCDEFABCDEF''"
  by (simp add: str_upper_def hexdigits_def digits_def upper_char_def
        ascii_lowercase_def ascii_uppercase_def)

lemma generate_hex_token:
  "fst (generate ''hex'' clk r g) = map (\<lambda>i. str_upper hexdigits ! (r i mod 22)) [0..<64]"
  by (simp add: generate_def random_choices_def TOKEN_LENGTH_def str_upper_hexdigits)

lemma distinct_alnum: "distinct (ascii_letters @ digits)"
  by (simp add: digits_def ascii_letters_def ascii_lowercase_def ascii_uppercase_def)

lemma hex_set: "set (str_upper hexdigits) = set ''0123456789ABCDEF''"
  unfolding str_upper_hexdigits by auto


text \<open>
  What holds of the three kinds: the token has 64 characters, each from the kind's
  character set (letters and digits, the sixteen uppercase hexadecimal digits, the ten
  digits); and the populations of alphanumeric and numeric list every character once, so
  that a uniform index is a uniform character.
\<close>

lemma generate_fixed_length_kinds:
  "length (fst (generate ''alphanumeric'' clk r g)) = 64
   \<and> set (fst (generate ''alphanumeric'' clk r g)) \<subseteq> set (ascii_letters @ digits)
   \<and> length (fst (generate ''hex'' clk r g)) = 64
   \<and> set (fst (generate ''hex'' clk r g)) \<subseteq> set ''0123456789ABCDEF''
   \<and> length (fst (generate ''numeric'' clk r g)) = 64
   \<and> set (fst (generate ''numeric'' clk r g)) \<subseteq> set digits
   \<and> distinct (ascii_letters @ digits) \<and> distinct digits"
proof -
  have a: "fst (generate ''alphanumeric'' clk r g) = fst (random_choices (ascii_letters @ digits) 64 r)"
    by (simp add: generate_def split_beta Let_def TOKEN_LENGTH_def)
  have h: "fst (generate ''hex'' clk r g) = fst (random_choices (str_upper hexdigits) 64 r)"
    by (simp add: generate_def split_beta TOKEN_LENGTH_def)
  have n: "fst (generate ''numeric'' clk r g) = fst (random_choices digits 64 r)"
    by (simp add: generate_def split_beta TOKEN_LENGTH_def)
  have sa: "set (fst (random_choices (ascii_letters @ digits) 64 r)) \<subseteq> set (ascii_letters @ digits)"
    by (rule random_choices_set) (simp add: digits_def)
  have "set (fst (random_choices (str_upper hexdigits) 64 r)) \<subseteq> set (str_upper hexdigits)"
    by (rule random_choices_set) (simp add: str_upper_hexdigits)
  then have sh: "set (fst (random_choices (str_upper hexdigits) 64 r)) \<subseteq> set ''0123456789ABCDEF''"
    unfolding hex_set .
  have sn: "set (fst (random_choices digits 64 r)) \<subseteq> set digits"
    by (rule random_choices_set) (simp add: digits_def)
  have d: "distinct digits"
    by (simp add: digits_def)
  from sa sh sn d distinct_alnum show ?thesis
    unfolding a h n by (simp only: random_choices_length simp_thms)
qed

text \<open>
  Claim C4, for the kind hex. Each character of the token is the element at a drawn index
  into \<open>string.hexdigits.upper()\<close>. That population has 22 positions, not 16: the letters
  A to F stand at two positions each and every digit at one, so of the 22 equally likely
  indices two give \<open>A\<close> (10 and 16) and one gives \<open>0\<close>. The characters are not drawn
  uniformly from the sixteen hexadecimal digits.
\<close>

theorem generate_hex_draws_not_uniform:
  "fst (generate ''hex'' clk r g) = map (\<lambda>i. str_upper hexdigits ! (r i mod 22)) [0..<64]
   \<and> str_upper hexdigits = ''0123456789ABCDEFABCDEF''
   \<and> count_list (str_upper hexdigits) CHR ''A'' = 2
   \<and> count_list (str_upper hexdigits) CHR ''0'' = 1
   \<and> fst (generate ''hex'' clk (\<lambda>i. 10) g) = replicate 64 CHR ''A''
   \<and> fst (generate ''hex'' clk (\<lambda>i. 16) g) = replicate 64 CHR ''A''"
proof -
  have a: "map (\<lambda>i. str_upper hexdigits ! (10 mod 22)) [0..<64] = replicate 64 CHR ''A''"
    by (simp add: str_upper_hexdigits map_replicate_const)
  have b: "map (\<lambda>i. str_upper hexdigits ! (16 mod 22)) [0..<64] = replicate 64 CHR ''A''"
    by (simp add: str_upper_hexdigits map_replicate_const)
  show ?thesis
    unfolding generate_hex_token a b
    by (simp add: str_upper_hexdigits)
qed


section \<open>How many records a run can collect\<close>

text \<open>
  With at least one worker, a delay that \<open>time.sleep\<close> accepts and an output path that
  opens, a run that is given enough turns returns, and it has collected at least the target
  and fewer than the target plus the number of workers. A single worker collects exactly
  the target.
\<close>

lemma filter_update_count:
  "i < length ws \<Longrightarrow>
     length (filter P (ws[i := x])) + (if P (ws ! i) then 1 else 0)
       = length (filter P ws) + (if P x then 1 else 0)"
proof (induction ws arbitrary: i)
  case Nil
  then show ?case by simp
next
  case (Cons w ws)
  show ?case
  proof (cases i)
    case 0
    then show ?thesis by simp
  next
    case (Suc j)
    with Cons.prems have "j < length ws" by simp
    from Cons.IH [OF this] Suc show ?thesis by simp
  qed
qed

lemma filter_room:
  "i < length ws \<Longrightarrow> \<not> P (ws ! i) \<Longrightarrow> length (filter P ws) < length ws"
  by (metis length_filter_less nth_mem)

lemma worker_step_length [simp]:
  "length (workers (worker_step num_accounts svc e i p)) = length (workers p)"
  by (simp add: worker_step_def split_beta split: pc.splits sum.splits)

lemma worker_step_bounded:
  assumes "bounded num_accounts p" and i: "i < length (workers p)"
  shows "bounded num_accounts (worker_step num_accounts svc e i p)"
proof (cases "workers p ! i")
  case Checking
  show ?thesis
  proof (cases "num_accounts \<le> int (length (accounts p))")
    case True
    with Checking have "worker_step num_accounts svc e i p = p\<lparr>workers := (workers p)[i := Returned]\<rparr>"
      by (simp add: worker_step_def)
    moreover from filter_update_count [OF i, of in_flight Returned] Checking
    have "length (filter in_flight ((workers p)[i := Returned])) = length (filter in_flight (workers p))"
      by simp
    ultimately show ?thesis
      using assms(1) by (simp add: bounded_def)
  next
    case False
    with Checking have s: "worker_step num_accounts svc e i p = p\<lparr>workers := (workers p)[i := Creating]\<rparr>"
      by (simp add: worker_step_def)
    from filter_update_count [OF i, of in_flight Creating] Checking
    have "length (filter in_flight ((workers p)[i := Creating])) = length (filter in_flight (workers p)) + 1"
      by simp
    moreover from filter_room [OF i, of in_flight] Checking
    have "length (filter in_flight (workers p)) < length (workers p)"
      by simp
    ultimately show ?thesis
      using False by (simp add: bounded_def s)
  qed
next
  case Creating
  have le: "length (filter in_flight ((workers p)[i := x])) \<le> length (filter in_flight (workers p))" for x
    using filter_update_count [OF i, of in_flight x] Creating by (simp split: if_splits)
  show ?thesis
  proof (cases "create_account_prepare svc None None None (now e) (rnd e) (creator p)")
    case (Inl err)
    with Creating have "worker_step num_accounts svc e i p = p\<lparr>workers := (workers p)[i := Raised err]\<rparr>"
      by (simp add: worker_step_def)
    with le [of "Raised err"] assms(1) show ?thesis
      by (simp add: bounded_def)
  next
    case (Inr ar)
    with Creating have "worker_step num_accounts svc e i p = p\<lparr>workers := (workers p)[i := Committing (fst ar)]\<rparr>"
      by (simp add: worker_step_def split_beta)
    with le [of "Committing (fst ar)"] assms(1) show ?thesis
      by (simp add: bounded_def)
  qed
next
  case (Committing a)
  from filter_update_count [OF i, of in_flight "Appending (fst (create_account_commit a (rnd e) (creator p)))"] Committing
  have "length (filter in_flight ((workers p)[i := Appending (fst (create_account_commit a (rnd e) (creator p)))]))
          = length (filter in_flight (workers p))"
    by simp
  with Committing assms(1) show ?thesis
    by (simp add: worker_step_def bounded_def split_beta)
next
  case (Appending a)
  from filter_update_count [OF i, of in_flight Reporting] Appending
  have "length (filter in_flight ((workers p)[i := Reporting])) + 1 = length (filter in_flight (workers p))"
    by simp
  with Appending assms(1) show ?thesis
    by (simp add: worker_step_def bounded_def)
next
  case Reporting
  from filter_update_count [OF i, of in_flight Checking] Reporting
  have "length (filter in_flight ((workers p)[i := Checking])) = length (filter in_flight (workers p))"
    by simp
  with Reporting assms(1) show ?thesis
    by (simp add: worker_step_def bounded_def)
next
  case Returned
  with assms(1) show ?thesis by (simp add: worker_step_def)
next
  case (Raised err)
  with assms(1) show ?thesis by (simp add: worker_step_def)
qed

lemma run_pool_invariant:
  assumes step: "\<And>e i p. Q p \<Longrightarrow> i < length (workers p) \<Longrightarrow> running (workers p ! i)
                   \<Longrightarrow> Q (worker_step num_accounts svc e i p)"
    and "Q p" and "run_pool num_accounts svc sched p = Some p'"
  shows "Q p' \<and> live p' = []"
  using assms(2,3)
proof (induction sched arbitrary: p)
  case Nil
  then show ?case by (simp split: if_splits)
next
  case (Cons e es)
  show ?case
  proof (cases "live p = []")
    case True
    with Cons.prems show ?thesis by simp
  next
    case False
    then have "live p ! (who e mod length (live p)) \<in> set (live p)"
      by (rule live_pick)
    then have "Q (worker_step num_accounts svc e (live p ! (who e mod length (live p))) p)"
      using Cons.prems(1) by (intro step) (simp_all add: live_mem)
    moreover from False Cons.prems(2)
    have "run_pool num_accounts svc es (worker_step num_accounts svc e (live p ! (who e mod length (live p))) p) = Some p'"
      by simp
    ultimately show ?thesis
      by (rule Cons.IH)
  qed
qed

lemma run_pool_at_most:
  assumes "run_pool num_accounts svc sched
             \<lparr>accounts = [], creator = c, workers = replicate t Checking, console = out\<rparr> = Some p'"
  shows "int (length (accounts p')) \<le> max 0 (num_accounts + int t - 1)"
proof -
  have "bounded num_accounts \<lparr>accounts = [], creator = c, workers = replicate t Checking, console = out\<rparr>"
    by (simp add: bounded_def)
  with assms
  have "(bounded num_accounts p' \<and> length (workers p') = t) \<and> live p' = []"
    by (intro run_pool_invariant [where Q = "\<lambda>p. bounded num_accounts p \<and> length (workers p) = t"])
       (simp_all add: worker_step_bounded)
  then have "int (length (accounts p')) + int (length (filter in_flight (workers p')))
               \<le> max 0 (num_accounts - 1 + int t)"
    unfolding bounded_def by blast
  then show ?thesis
    by linarith
qed

lemma prepare_returns:
  "time_sleep (delay c) = Inr () \<Longrightarrow> create_account_prepare svc uname pword mail stamp r c \<noteq> Inl err"
  by (simp add: create_account_prepare_def split_beta Let_def)

lemma commit_delay: "delay (snd (snd (create_account_commit a r c))) = delay c"
  by (simp add: create_account_commit_def split_beta Let_def)

lemma worker_step_target_seen:
  assumes "target_seen num_accounts p" and i: "i < length (workers p)"
  shows "target_seen num_accounts (worker_step num_accounts svc e i p)"
proof -
  have sub: "set ((workers p)[i := x]) \<subseteq> insert x (set (workers p))" for x
    by (rule set_update_subset_insert)
  show ?thesis
  proof (cases "workers p ! i")
    case Checking
    with assms(1) sub [of Returned] sub [of Creating] show ?thesis
      by (auto simp: worker_step_def target_seen_def)
  next
    case Creating
    show ?thesis
    proof (cases "create_account_prepare svc None None None (now e) (rnd e) (creator p)")
      case (Inl err)
      with assms(1) prepare_returns show ?thesis
        by (metis target_seen_def)
    next
      case (Inr ar)
      with Creating have "worker_step num_accounts svc e i p = p\<lparr>workers := (workers p)[i := Committing (fst ar)]\<rparr>"
        by (simp add: worker_step_def split_beta)
      with assms(1) sub [of "Committing (fst ar)"] show ?thesis
        by (auto simp: target_seen_def)
    qed
  next
    case (Committing a)
    with assms(1) sub [of "Appending (fst (create_account_commit a (rnd e) (creator p)))"] show ?thesis
      by (auto simp: worker_step_def target_seen_def split_beta commit_delay)
  next
    case (Appending a)
    with assms(1) sub [of Reporting] show ?thesis
      by (auto simp: worker_step_def target_seen_def)
  next
    case Reporting
    with assms(1) sub [of Checking] show ?thesis
      by (auto simp: worker_step_def target_seen_def)
  next
    case Returned
    with assms(1) show ?thesis by (simp add: worker_step_def)
  next
    case (Raised err)
    with assms(1) show ?thesis by (simp add: worker_step_def)
  qed
qed

lemma run_pool_at_least:
  assumes "run_pool num_accounts svc sched
             \<lparr>accounts = [], creator = \<lparr>created = k, delay = dly\<rparr>,
              workers = replicate t Checking, console = out\<rparr> = Some p'"
    and "time_sleep dly = Inr ()" and "0 < t"
  shows "num_accounts \<le> int (length (accounts p'))"
proof -
  have "target_seen num_accounts \<lparr>accounts = [], creator = \<lparr>created = k, delay = dly\<rparr>,
              workers = replicate t Checking, console = out\<rparr>"
    using assms(2) by (simp add: target_seen_def)
  with assms(1)
  have inv: "(target_seen num_accounts p' \<and> length (workers p') = t) \<and> live p' = []"
    by (intro run_pool_invariant [where Q = "\<lambda>p. target_seen num_accounts p \<and> length (workers p) = t"])
       (simp_all add: worker_step_target_seen)
  with assms(3) have mem: "workers p' ! 0 \<in> set (workers p')"
    by simp
  from inv assms(3) have nr: "\<not> running (workers p' ! 0)"
    using live_mem [of 0 p'] by simp
  have "workers p' ! 0 = Returned"
  proof (cases "workers p' ! 0")
    case (Raised err)
    with mem inv show ?thesis
      by (auto simp: target_seen_def)
  qed (use nr in simp_all)
  with mem have "Returned \<in> set (workers p')"
    by simp
  with inv show ?thesis
    by (simp add: target_seen_def)
qed

lemma turns_left_mono: "k' \<le> k \<Longrightarrow> turns_left k' x \<le> turns_left k x"
  by (cases x) simp_all

lemma turns_left_running: "running x \<Longrightarrow> 0 < turns_left k x"
  by (cases x) simp_all

lemma potential_step:
  "i < length ws \<Longrightarrow> (\<And>x. f' x \<le> f x) \<Longrightarrow> f' y < f (ws ! i)
     \<Longrightarrow> sum_list (map f' (ws[i := y])) < (sum_list (map f ws) :: nat)"
proof (induction ws arbitrary: i)
  case Nil
  then show ?case by simp
next
  case (Cons w ws)
  show ?case
  proof (cases i)
    case 0
    have "sum_list (map f' ws) \<le> sum_list (map f ws)"
      by (rule sum_list_mono) (rule Cons.prems(2))
    with 0 Cons.prems(3) show ?thesis by simp
  next
    case (Suc j)
    with Cons.prems have "sum_list (map f' (ws[j := y])) < sum_list (map f ws)"
      by (intro Cons.IH) simp_all
    with Cons.prems(2) [of w] Suc show ?thesis
      by (simp add: add_le_less_mono)
  qed
qed

lemma worker_step_fuel:
  assumes i: "i < length (workers p)" and r: "running (workers p ! i)"
  shows "fuel_needed num_accounts (worker_step num_accounts svc e i p) < fuel_needed num_accounts p"
proof -
  define k where "k = nat (num_accounts - int (length (accounts p)))"
  have same: "sum_list (map (turns_left k) ((workers p)[i := y])) < sum_list (map (turns_left k) (workers p))"
    if "turns_left k y < turns_left k (workers p ! i)" for y
    using i _ that by (rule potential_step) simp
  show ?thesis
  proof (cases "workers p ! i")
    case Checking
    show ?thesis
    proof (cases "num_accounts \<le> int (length (accounts p))")
      case True
      with Checking have "worker_step num_accounts svc e i p = p\<lparr>workers := (workers p)[i := Returned]\<rparr>"
        by (simp add: worker_step_def)
      with same [of Returned] Checking show ?thesis
        by (simp add: fuel_needed_def k_def)
    next
      case False
      with Checking have "worker_step num_accounts svc e i p = p\<lparr>workers := (workers p)[i := Creating]\<rparr>"
        by (simp add: worker_step_def)
      moreover from False have "0 < k"
        by (simp add: k_def)
      ultimately show ?thesis
        using same [of Creating] Checking by (simp add: fuel_needed_def k_def)
    qed
  next
    case Creating
    show ?thesis
    proof (cases "create_account_prepare svc None None None (now e) (rnd e) (creator p)")
      case (Inl err)
      with Creating have "worker_step num_accounts svc e i p = p\<lparr>workers := (workers p)[i := Raised err]\<rparr>"
        by (simp add: worker_step_def)
      with same [of "Raised err"] Creating show ?thesis
        by (simp add: fuel_needed_def k_def)
    next
      case (Inr ar)
      with Creating have "worker_step num_accounts svc e i p = p\<lparr>workers := (workers p)[i := Committing (fst ar)]\<rparr>"
        by (simp add: worker_step_def split_beta)
      with same [of "Committing (fst ar)"] Creating show ?thesis
        by (simp add: fuel_needed_def k_def)
    qed
  next
    case (Committing a)
    then have "worker_step num_accounts svc e i p =
        p\<lparr>creator := snd (snd (create_account_commit a (rnd e) (creator p))),
          workers := (workers p)[i := Appending (fst (create_account_commit a (rnd e) (creator p)))]\<rparr>"
      by (simp add: worker_step_def split_beta)
    with same [of "Appending (fst (create_account_commit a (rnd e) (creator p)))"] Committing show ?thesis
      by (simp add: fuel_needed_def k_def)
  next
    case (Appending a)
    then have s: "worker_step num_accounts svc e i p =
        p\<lparr>accounts := accounts p @ [a], workers := (workers p)[i := Reporting]\<rparr>"
      by (simp add: worker_step_def)
    have k': "nat (num_accounts - int (length (accounts p @ [a]))) = k - 1"
      by (simp add: k_def)
    have "sum_list (map (turns_left (k - 1)) ((workers p)[i := Reporting]))
            < sum_list (map (turns_left k) (workers p))"
      using i
    proof (rule potential_step)
      show "turns_left (k - 1) x \<le> turns_left k x" for x
        by (rule turns_left_mono) simp
      show "turns_left (k - 1) Reporting < turns_left k (workers p ! i)"
        using Appending by simp
    qed
    then show ?thesis
      unfolding fuel_needed_def s using k' by (simp add: k_def)
  next
    case Reporting
    then have "worker_step num_accounts svc e i p =
        p\<lparr>console := console p @ [Progress (length (accounts p)) num_accounts],
          workers := (workers p)[i := Checking]\<rparr>"
      by (simp add: worker_step_def)
    with same [of Checking] Reporting show ?thesis
      by (simp add: fuel_needed_def k_def)
  next
    case Returned
    with r show ?thesis by simp
  next
    case (Raised err)
    with r show ?thesis by simp
  qed
qed

lemma no_fuel_needed: "fuel_needed num_accounts p = 0 \<Longrightarrow> live p = []"
proof (rule ccontr)
  assume z: "fuel_needed num_accounts p = 0" and "live p \<noteq> []"
  then obtain i where "i \<in> set (live p)"
    by (cases "live p") auto
  then have mem: "workers p ! i \<in> set (workers p)" and run: "running (workers p ! i)"
    by (simp_all add: live_mem)
  from z have "\<forall>x \<in> set (workers p).
      turns_left (nat (num_accounts - int (length (accounts p)))) x = 0"
    by (simp add: fuel_needed_def)
  with mem have "turns_left (nat (num_accounts - int (length (accounts p)))) (workers p ! i) = 0"
    by blast
  with turns_left_running [OF run, of "nat (num_accounts - int (length (accounts p)))"] show False
    by simp
qed

lemma run_pool_returns:
  "fuel_needed num_accounts p \<le> length sched \<Longrightarrow> run_pool num_accounts svc sched p \<noteq> None"
proof (induction sched arbitrary: p)
  case Nil
  then show ?case
    by (simp add: no_fuel_needed)
next
  case (Cons e es)
  show ?case
  proof (cases "live p = []")
    case True
    then show ?thesis by simp
  next
    case False
    then have "live p ! (who e mod length (live p)) \<in> set (live p)"
      by (rule live_pick)
    then have "fuel_needed num_accounts (worker_step num_accounts svc e (live p ! (who e mod length (live p))) p)
                 < fuel_needed num_accounts p"
      by (intro worker_step_fuel) (simp_all add: live_mem)
    with Cons.prems have "fuel_needed num_accounts (worker_step num_accounts svc e (live p ! (who e mod length (live p))) p)
                 \<le> length es"
      by simp
    from Cons.IH [OF this] False show ?thesis
      by simp
  qed
qed

lemma create_accounts_count_bounds:
  assumes "num_accounts \<le> 1000" and "time_sleep dly = Inr ()" and "0 < threads"
    and "open_for_writing w output_file = Inr ()"
    and "nat threads * (5 * nat num_accounts + 1) \<le> length sched"
  shows "\<exists>p w'. create_accounts num_accounts svc output_file dly threads sched w = Some (Completed p, w')
           \<and> num_accounts \<le> int (length (accounts p))
           \<and> int (length (accounts p)) \<le> max 0 (num_accounts + threads - 1)"
proof -
  define p0 where "p0 = \<lparr>accounts = [], creator = \<lparr>created = 0, delay = dly\<rparr>,
                 workers = replicate (nat threads) Checking,
                 console = stdout w @ [CreatingAccounts num_accounts svc threads]\<rparr>"
  have "fuel_needed num_accounts p0 = nat threads * (5 * nat num_accounts + 1)"
    by (simp add: fuel_needed_def p0_def sum_list_replicate)
  with assms(5) have "run_pool num_accounts svc sched p0 \<noteq> None"
    by (intro run_pool_returns) simp
  then obtain p where p: "run_pool num_accounts svc sched p0 = Some p"
    by blast
  from p assms(2,3) have lo: "num_accounts \<le> int (length (accounts p))"
    unfolding p0_def by (intro run_pool_at_least [where t = "nat threads"]) simp_all
  from p have "int (length (accounts p)) \<le> max 0 (num_accounts + int (nat threads) - 1)"
    unfolding p0_def by (rule run_pool_at_most)
  with assms(3) have hi: "int (length (accounts p)) \<le> max 0 (num_accounts + threads - 1)"
    by simp
  from assms(1,4) p lo hi show ?thesis
    by (simp add: create_accounts_def MAX_ACCOUNTS_def p0_def)
qed

lemma create_accounts_single_worker:
  assumes "0 \<le> num_accounts" and "num_accounts \<le> 1000" and "time_sleep dly = Inr ()"
    and "open_for_writing w output_file = Inr ()"
    and "5 * nat num_accounts + 1 \<le> length sched"
  shows "\<exists>p w'. create_accounts num_accounts svc output_file dly 1 sched w = Some (Completed p, w')
           \<and> int (length (accounts p)) = num_accounts"
proof -
  from assms have "\<exists>p w'. create_accounts num_accounts svc output_file dly 1 sched w = Some (Completed p, w')
           \<and> num_accounts \<le> int (length (accounts p))
           \<and> int (length (accounts p)) \<le> max 0 (num_accounts + 1 - 1)"
    by (intro create_accounts_count_bounds) simp_all
  with assms(1) show ?thesis
    by (auto simp: max_def)
qed

end
